theory Spec2Isabelle
  imports Main
begin

section \<open>The relocation of animals across Australian states (australia.py)\<close>

text \<open>
  The program keeps a list of \<open>FictionalAnimal\<close> objects and moves each of them, in list
  order, to the first state of a fixed order where it is safe. The objects are mutated in
  place, so the model has an explicit store: an object is an address (a natural number),
  the store maps addresses to the fields of the objects, and the Python list
  \<open>animals\<close> is a list of addresses. A list that holds the same object twice is a list
  with a repeated address.

  The module-level dictionary \<open>ADJACENT_STATES\<close> is read by \<open>set_state\<close> and by
  \<open>relocate_animals\<close>. Every function that reads it takes it as its first argument
  \<open>g\<close>; the program is the instance at the constant \<open>ADJACENT_STATES\<close> below.

  Names and states are compared for equality only, so a Python string is a \<open>string\<close>
  here (its bytes). \<open>load_dataset\<close>, \<open>__str__\<close> and the printing of \<open>main\<close>
  are not part of the model, apart from the final summary of names and states.
\<close>

subsection \<open>Data\<close>

type_synonym graph = "(string \<times> string list) list"

definition ADJACENT_STATES :: graph where
  "ADJACENT_STATES =
     [(''NSW'', [''VIC'', ''SA'', ''QLD'']),
      (''QLD'', [''NT'', ''SA'', ''NSW'']),
      (''VIC'', [''SA'', ''NSW'']),
      (''TAS'', []),
      (''SA'', [''WA'', ''NT'', ''QLD'', ''NSW'', ''VIC'']),
      (''NT'', [''WA'', ''SA'', ''QLD'']),
      (''WA'', [''SA'', ''NT''])]"

record FictionalAnimal =
  name :: string
  habitat :: string
  threat :: string
  state :: string

type_synonym store = "nat \<Rightarrow> FictionalAnimal"

type_synonym occupied = "string \<rightharpoonup> string"

datatype error = KeyError

text \<open>\<open>FictionalAnimal.__init__\<close>: the starting state is \<open>'ACT'\<close>.\<close>

definition init :: "string \<Rightarrow> string \<Rightarrow> string \<Rightarrow> FictionalAnimal" where
  "init n hb t = \<lparr>name = n, habitat = hb, threat = t, state = ''ACT''\<rparr>"

definition get_state :: "FictionalAnimal \<Rightarrow> string" where
  "get_state a = state a"

text \<open>\<open>state in ADJACENT_STATES.keys()\<close>\<close>

definition keys :: "graph \<Rightarrow> string set" where
  "keys g = set (map fst g)"

definition set_state :: "graph \<Rightarrow> FictionalAnimal \<Rightarrow> string \<Rightarrow> FictionalAnimal" where
  "set_state g a s = (if s \<in> keys g \<or> s = ''ACT'' then a\<lparr>state := s\<rparr> else a)"

subsection \<open>The three safety checks\<close>

text \<open>
  \<open>next((a for a in animals if a.name == n), None)\<close>: the first object of the list whose
  name is \<open>n\<close>, read in the current store.
\<close>

definition find_animal :: "store \<Rightarrow> nat list \<Rightarrow> string \<Rightarrow> nat option" where
  "find_animal h animals n = List.find (\<lambda>a. name (h a) = n) animals"

text \<open>\<open>ADJACENT_STATES.get(state, [])\<close> and \<open>ADJACENT_STATES[state]\<close>\<close>

definition adjacent_get :: "graph \<Rightarrow> string \<Rightarrow> string list" where
  "adjacent_get g st = (case map_of g st of None \<Rightarrow> [] | Some adjs \<Rightarrow> adjs)"

definition adjacent_index :: "graph \<Rightarrow> string \<Rightarrow> error + string list" where
  "adjacent_index g st = (case map_of g st of None \<Rightarrow> Inl KeyError | Some adjs \<Rightarrow> Inr adjs)"

text \<open>Check (1): \<open>threat_animal and threat_animal.get_state() == state\<close>. An object is
  always true in a condition (the class defines neither \<open>__bool__\<close> nor \<open>__len__\<close>).\<close>

definition same_state_as_threat :: "store \<Rightarrow> nat list \<Rightarrow> nat \<Rightarrow> string \<Rightarrow> bool" where
  "same_state_as_threat h animals animal st =
     (case find_animal h animals (threat (h animal)) of
        None \<Rightarrow> False
      | Some threat_animal \<Rightarrow> get_state (h threat_animal) = st)"

text \<open>Check (2): \<open>threat_animal and threat_animal.get_state() in ADJACENT_STATES.get(state, [])\<close>\<close>

definition next_to_threat :: "graph \<Rightarrow> store \<Rightarrow> nat list \<Rightarrow> nat \<Rightarrow> string \<Rightarrow> bool" where
  "next_to_threat g h animals animal st =
     (case find_animal h animals (threat (h animal)) of
        None \<Rightarrow> False
      | Some threat_animal \<Rightarrow> get_state (h threat_animal) \<in> set (adjacent_get g st))"

text \<open>Check (3), the loop over the adjacent states: true when the loop sets
  \<open>safe = False\<close> and breaks.\<close>

fun threat_to_adjacent :: "store \<Rightarrow> nat list \<Rightarrow> occupied \<Rightarrow> nat \<Rightarrow> string list \<Rightarrow> bool" where
  "threat_to_adjacent h animals occ animal [] = False"
| "threat_to_adjacent h animals occ animal (adj_state # rest) =
     (case occ adj_state of
        None \<Rightarrow> threat_to_adjacent h animals occ animal rest
      | Some adj_animal_name \<Rightarrow>
          (case find_animal h animals adj_animal_name of
             None \<Rightarrow> threat_to_adjacent h animals occ animal rest
           | Some adj_animal \<Rightarrow>
               if threat (h adj_animal) = name (h animal) then True
               else threat_to_adjacent h animals occ animal rest))"

text \<open>The value of \<open>safe\<close> after the \<open>if\<close>/\<open>elif\<close>/\<open>else\<close> of one candidate state.\<close>

definition is_safe :: "graph \<Rightarrow> store \<Rightarrow> nat list \<Rightarrow> occupied \<Rightarrow> nat \<Rightarrow> string \<Rightarrow> error + bool" where
  "is_safe g h animals occ animal st =
     (if same_state_as_threat h animals animal st then Inr False
      else if next_to_threat g h animals animal st then Inr False
      else (case adjacent_index g st of
              Inl e \<Rightarrow> Inl e
            | Inr adjs \<Rightarrow> Inr (\<not> threat_to_adjacent h animals occ animal adjs)))"

subsection \<open>The two loops of \<open>relocate_animals\<close>\<close>

definition state_order :: "string list" where
  "state_order = [''NSW'', ''QLD'', ''VIC'', ''TAS'', ''SA'', ''NT'', ''WA'']"

text \<open>The inner loop over the candidate states that are left; the third component of the
  result is \<open>placed\<close>.\<close>

fun try_states ::
  "graph \<Rightarrow> store \<Rightarrow> nat list \<Rightarrow> occupied \<Rightarrow> nat \<Rightarrow> string list \<Rightarrow> error + (store \<times> occupied \<times> bool)"
where
  "try_states g h animals occ animal [] = Inr (h, occ, False)"
| "try_states g h animals occ animal (st # sts) =
     (if occ st \<noteq> None then try_states g h animals occ animal sts
      else
        (case is_safe g h animals occ animal st of
           Inl e \<Rightarrow> Inl e
         | Inr safe \<Rightarrow>
             if safe then
               (let h' = h(animal := set_state g (h animal) st)
                in Inr (h', occ(st \<mapsto> name (h' animal)), True))
             else try_states g h animals occ animal sts))"

text \<open>The body of the outer loop for one animal.\<close>

definition relocate_one ::
  "graph \<Rightarrow> nat list \<Rightarrow> store \<Rightarrow> occupied \<Rightarrow> nat \<Rightarrow> error + (store \<times> occupied)"
where
  "relocate_one g animals h occ animal =
     (case try_states g h animals occ animal state_order of
        Inl e \<Rightarrow> Inl e
      | Inr (h', occ', placed) \<Rightarrow>
          if \<not> placed then Inr (h'(animal := set_state g (h' animal) ''ACT''), occ')
          else Inr (h', occ'))"

text \<open>The outer loop over the animals that are left; \<open>animals\<close> stays the whole list.\<close>

fun relocate_loop ::
  "graph \<Rightarrow> nat list \<Rightarrow> store \<Rightarrow> occupied \<Rightarrow> nat list \<Rightarrow> error + (store \<times> occupied)"
where
  "relocate_loop g animals h occ [] = Inr (h, occ)"
| "relocate_loop g animals h occ (animal # rest) =
     (case relocate_one g animals h occ animal of
        Inl e \<Rightarrow> Inl e
      | Inr (h', occ') \<Rightarrow> relocate_loop g animals h' occ' rest)"

text \<open>\<open>relocate_animals\<close> returns nothing; the model returns the store it leaves and the
  final value of its local table \<open>occupied\<close>.\<close>

definition relocate_animals :: "graph \<Rightarrow> store \<Rightarrow> nat list \<Rightarrow> error + (store \<times> occupied)" where
  "relocate_animals g h animals = relocate_loop g animals h Map.empty animals"

text \<open>The summary printed by \<open>main\<close> after the run: name and state of every animal.\<close>

definition summary :: "graph \<Rightarrow> store \<Rightarrow> nat list \<Rightarrow> error + (string \<times> string) list" where
  "summary g h animals =
     (case relocate_animals g h animals of
        Inl e \<Rightarrow> Inl e
      | Inr (h', occ) \<Rightarrow> Inr (map (\<lambda>a. (name (h' a), get_state (h' a))) animals))"

subsection \<open>Notions of the specification\<close>

text \<open>
  The specification's rule for one animal: the candidates are tried in order and the first
  one that is unoccupied and passes the safety check wins. \<open>first_safe\<close> follows these
  words; it is compared with the loop \<open>try_states\<close> below.
\<close>

definition first_safe :: "graph \<Rightarrow> store \<Rightarrow> nat list \<Rightarrow> occupied \<Rightarrow> nat \<Rightarrow> string list \<Rightarrow> string option" where
  "first_safe g h animals occ animal sts =
     List.find (\<lambda>st. occ st = None \<and> is_safe g h animals occ animal st = Inr True) sts"

text \<open>
  The invariant of the outer loop, for the set \<open>D\<close> of the animals processed so far:
  the table only holds candidate states, a processed animal is either at \<open>'ACT'\<close> or
  recorded in the table under its state, and two processed animals share no state but
  \<open>'ACT'\<close>.
\<close>

definition table_inv :: "nat set \<Rightarrow> store \<Rightarrow> occupied \<Rightarrow> bool" where
  "table_inv D h occ \<longleftrightarrow>
     (\<forall>st n. occ st = Some n \<longrightarrow> st \<in> set state_order) \<and>
     (\<forall>a\<in>D. state (h a) = ''ACT'' \<or> occ (state (h a)) = Some (name (h a))) \<and>
     (\<forall>a\<in>D. \<forall>b\<in>D. a \<noteq> b \<and> state (h a) = state (h b) \<longrightarrow> state (h a) = ''ACT'')"

text \<open>
  Two stores are the same input for a list of animals when they give every animal of the
  list the same name, the same threat and the same state. The habitats and the objects
  outside the list may differ.
\<close>

definition same_input :: "nat list \<Rightarrow> store \<Rightarrow> store \<Rightarrow> bool" where
  "same_input animals h1 h2 \<longleftrightarrow>
     (\<forall>a\<in>set animals. name (h1 a) = name (h2 a) \<and> threat (h1 a) = threat (h2 a) \<and>
        state (h1 a) = state (h2 a))"

subsection \<open>An input for the examples\<close>

text \<open>
  Three objects as \<open>load_dataset\<close> builds them from the lines \<open>A,bush,B\<close>,
  \<open>B,reef,none\<close> and \<open>C,cave,C\<close>, at the addresses 0, 1 and 2.
\<close>

definition example_store :: store where
  "example_store =
     (\<lambda>_. init [] [] [])
       (0 := init ''A'' ''bush'' ''B'', 1 := init ''B'' ''reef'' ''none'', 2 := init ''C'' ''cave'' ''C'')"

text \<open>The dictionary with the entry of TAS, the state without neighbours, left out.\<close>

definition ADJACENT_STATES_without_TAS :: graph where
  "ADJACENT_STATES_without_TAS = filter (\<lambda>entry. fst entry \<noteq> ''TAS'') ADJACENT_STATES"

section \<open>Properties\<close>

subsection \<open>Setting the state\<close>

lemma name_set_state [simp]: "name (set_state g a s) = name a"
  by (simp add: set_state_def)

lemma threat_set_state [simp]: "threat (set_state g a s) = threat a"
  by (simp add: set_state_def)

lemma habitat_set_state [simp]: "habitat (set_state g a s) = habitat a"
  by (simp add: set_state_def)

lemma set_state_key: "s \<in> keys g \<Longrightarrow> set_state g a s = a\<lparr>state := s\<rparr>"
  by (simp add: set_state_def)

lemma set_state_ACT: "set_state g a ''ACT'' = a\<lparr>state := ''ACT''\<rparr>"
  by (simp add: set_state_def)

lemma keys_ADJACENT_STATES:
  "keys ADJACENT_STATES = {''NSW'', ''QLD'', ''VIC'', ''TAS'', ''SA'', ''NT'', ''WA''}"
  by (simp add: keys_def ADJACENT_STATES_def)

lemma state_order_keys: "set state_order = keys ADJACENT_STATES"
  by (simp add: keys_ADJACENT_STATES state_order_def)

lemma ACT_not_candidate: "''ACT'' \<notin> set state_order"
  by (simp add: state_order_def)

lemma adjacent_index_key: "st \<in> keys g \<Longrightarrow> \<exists>adjs. adjacent_index g st = Inr adjs"
  by (auto simp: adjacent_index_def keys_def map_of_eq_None_iff split: option.splits)

lemma adjacent_index_get: "adjacent_index g st = Inr adjs \<Longrightarrow> adjacent_get g st = adjs"
  by (auto simp: adjacent_index_def adjacent_get_def split: option.splits)

lemma is_safe_total: "st \<in> keys g \<Longrightarrow> \<exists>b. is_safe g h animals occ animal st = Inr b"
  using adjacent_index_key [of st g] by (auto simp: is_safe_def)

lemma try_states_first_safe:
  "set sts \<subseteq> keys g \<Longrightarrow>
   try_states g h animals occ animal sts =
     (case first_safe g h animals occ animal sts of
        None \<Rightarrow> Inr (h, occ, False)
      | Some st \<Rightarrow> Inr (h(animal := (h animal)\<lparr>state := st\<rparr>), occ(st \<mapsto> name (h animal)), True))"
proof (induction sts)
  case Nil
  then show ?case by (simp add: first_safe_def)
next
  case (Cons st sts)
  then have key: "st \<in> keys g" and rest: "set sts \<subseteq> keys g" by simp_all
  from is_safe_total [OF key] obtain b where b: "is_safe g h animals occ animal st = Inr b"
    by blast
  show ?case
    using Cons.IH [OF rest] b key
    by (cases b) (auto simp: first_safe_def set_state_key Let_def)
qed

lemma relocate_one_first_safe:
  "set state_order \<subseteq> keys g \<Longrightarrow>
   relocate_one g animals h occ animal =
     (case first_safe g h animals occ animal state_order of
        None \<Rightarrow> Inr (h(animal := (h animal)\<lparr>state := ''ACT''\<rparr>), occ)
      | Some st \<Rightarrow> Inr (h(animal := (h animal)\<lparr>state := st\<rparr>), occ(st \<mapsto> name (h animal))))"
  by (simp add: relocate_one_def try_states_first_safe set_state_ACT split: option.splits)

lemma first_safe_Some:
  "first_safe g h animals occ animal sts = Some st \<Longrightarrow>
   st \<in> set sts \<and> occ st = None \<and> is_safe g h animals occ animal st = Inr True"
  by (auto simp: first_safe_def find_Some_iff)


lemma try_states_cases:
  "try_states g h animals occ animal sts = Inr (h', occ', placed) \<Longrightarrow>
   (\<not> placed \<and> h' = h \<and> occ' = occ) \<or>
   (placed \<and> (\<exists>st\<in>set sts. occ st = None \<and> is_safe g h animals occ animal st = Inr True \<and>
       h' = h(animal := set_state g (h animal) st) \<and> occ' = occ(st \<mapsto> name (h animal))))"
proof (induction sts)
  case Nil
  then show ?case by simp
next
  case (Cons st sts)
  then show ?case
    by (auto simp: Let_def split: if_splits sum.splits)
qed

lemma relocate_one_cases:
  assumes "relocate_one g animals h occ animal = Inr (h', occ')"
  shows "(h' = h(animal := set_state g (h animal) ''ACT'') \<and> occ' = occ) \<or>
         (\<exists>st\<in>set state_order. occ st = None \<and> is_safe g h animals occ animal st = Inr True \<and>
             h' = h(animal := set_state g (h animal) st) \<and> occ' = occ(st \<mapsto> name (h animal)))"
proof -
  from assms obtain h1 occ1 placed where
    t: "try_states g h animals occ animal state_order = Inr (h1, occ1, placed)" and
    r: "(h', occ') = (if \<not> placed then (h1(animal := set_state g (h1 animal) ''ACT''), occ1) else (h1, occ1))"
    by (auto simp: relocate_one_def split: sum.splits if_splits)
  from try_states_cases [OF t] r show ?thesis
    by (cases placed) auto
qed

lemma relocate_one_other:
  "relocate_one g animals h occ animal = Inr (h', occ') \<Longrightarrow> a \<noteq> animal \<Longrightarrow> h' a = h a"
  by (drule relocate_one_cases) auto

lemma relocate_one_fields:
  "relocate_one g animals h occ animal = Inr (h', occ') \<Longrightarrow>
   name (h' a) = name (h a) \<and> threat (h' a) = threat (h a) \<and> habitat (h' a) = habitat (h a)"
  by (drule relocate_one_cases) auto


lemma relocate_loop_other:
  "relocate_loop g animals h occ rest = Inr (h', occ') \<Longrightarrow> a \<notin> set rest \<Longrightarrow> h' a = h a"
proof (induction rest arbitrary: h occ)
  case Nil
  then show ?case by simp
next
  case (Cons animal rest)
  from Cons.prems obtain h1 occ1 where
    one: "relocate_one g animals h occ animal = Inr (h1, occ1)" and
    loop: "relocate_loop g animals h1 occ1 rest = Inr (h', occ')"
    by (auto split: sum.splits)
  from Cons.prems have "a \<noteq> animal" "a \<notin> set rest" by auto
  with Cons.IH [OF loop] relocate_one_other [OF one] show ?case by simp
qed

lemma relocate_loop_fields:
  "relocate_loop g animals h occ rest = Inr (h', occ') \<Longrightarrow>
   name (h' a) = name (h a) \<and> threat (h' a) = threat (h a) \<and> habitat (h' a) = habitat (h a)"
proof (induction rest arbitrary: h occ)
  case Nil
  then show ?case by simp
next
  case (Cons animal rest)
  from Cons.prems obtain h1 occ1 where
    one: "relocate_one g animals h occ animal = Inr (h1, occ1)" and
    loop: "relocate_loop g animals h1 occ1 rest = Inr (h', occ')"
    by (auto split: sum.splits)
  from Cons.IH [OF loop] relocate_one_fields [OF one, of a] show ?case by simp
qed


lemma relocate_loop_append:
  "relocate_loop g animals h occ (xs @ ys) =
     (case relocate_loop g animals h occ xs of
        Inl e \<Rightarrow> Inl e
      | Inr (h1, occ1) \<Rightarrow> relocate_loop g animals h1 occ1 ys)"
  by (induction xs arbitrary: h occ) (auto split: sum.splits)

lemma relocate_one_total:
  "set state_order \<subseteq> keys g \<Longrightarrow> \<exists>h' occ'. relocate_one g animals h occ animal = Inr (h', occ')"
  by (simp add: relocate_one_first_safe split: option.splits)

lemma relocate_loop_total:
  "set state_order \<subseteq> keys g \<Longrightarrow> \<exists>h' occ'. relocate_loop g animals h occ rest = Inr (h', occ')"
proof (induction rest arbitrary: h occ)
  case Nil
  then show ?case by simp
next
  case (Cons animal rest)
  from relocate_one_total [OF Cons.prems] obtain h1 occ1 where
    "relocate_one g animals h occ animal = Inr (h1, occ1)" by blast
  with Cons.IH [OF Cons.prems, of h1 occ1] show ?case by simp
qed

subsection \<open>The invariant of the table\<close>


lemma table_inv_empty: "table_inv {} h Map.empty"
  by (simp add: table_inv_def)

lemma table_inv_unplaced:
  assumes inv: "table_inv D h occ"
  shows "table_inv (insert animal D) (h(animal := (h animal)\<lparr>state := ''ACT''\<rparr>)) occ"
proof -
  let ?h = "h(animal := (h animal)\<lparr>state := ''ACT''\<rparr>)"
  have 1: "\<forall>st n. occ st = Some n \<longrightarrow> st \<in> set state_order"
    using inv by (simp add: table_inv_def)
  have 2: "state (?h a) = ''ACT'' \<or> occ (state (?h a)) = Some (name (?h a))"
    if "a \<in> insert animal D" for a
  proof (cases "a = animal")
    case True
    then show ?thesis by simp
  next
    case False
    with that have "a \<in> D" by simp
    with inv have "state (h a) = ''ACT'' \<or> occ (state (h a)) = Some (name (h a))"
      by (simp add: table_inv_def)
    with False show ?thesis by simp
  qed
  have 3: "state (?h a) = ''ACT''"
    if "a \<in> insert animal D" "b \<in> insert animal D" "a \<noteq> b" "state (?h a) = state (?h b)" for a b
  proof (cases "a = animal")
    case True
    then show ?thesis by simp
  next
    case False
    note a = this
    show ?thesis
    proof (cases "b = animal")
      case True
      with that show ?thesis by simp
    next
      case False
      with a that have "a \<in> D" "b \<in> D" "state (h a) = state (h b)" by simp_all
      with inv that(3) have "state (h a) = ''ACT''"
        unfolding table_inv_def by blast
      with a show ?thesis by simp
    qed
  qed
  show ?thesis
    unfolding table_inv_def using 1 2 3 by blast
qed

lemma table_inv_placed:
  assumes inv: "table_inv D h occ"
    and st: "st \<in> set state_order" "occ st = None"
  shows "table_inv (insert animal D) (h(animal := (h animal)\<lparr>state := st\<rparr>))
           (occ(st \<mapsto> name (h animal)))"
proof -
  let ?h = "h(animal := (h animal)\<lparr>state := st\<rparr>)"
  let ?occ = "occ(st \<mapsto> name (h animal))"
  have act: "st \<noteq> ''ACT''"
    using st(1) ACT_not_candidate by auto
  have free: "state (h a) \<noteq> st" if "a \<in> D" for a
  proof -
    from inv that have "state (h a) = ''ACT'' \<or> occ (state (h a)) = Some (name (h a))"
      by (simp add: table_inv_def)
    with act st(2) show ?thesis by auto
  qed
  have 1: "\<forall>s n. ?occ s = Some n \<longrightarrow> s \<in> set state_order"
    using inv st(1) by (simp add: table_inv_def)
  have 2: "state (?h a) = ''ACT'' \<or> ?occ (state (?h a)) = Some (name (?h a))"
    if "a \<in> insert animal D" for a
  proof (cases "a = animal")
    case True
    then show ?thesis by simp
  next
    case False
    with that have "a \<in> D" by simp
    with inv free have "state (h a) = ''ACT'' \<or> occ (state (h a)) = Some (name (h a))"
      "state (h a) \<noteq> st"
      by (simp_all add: table_inv_def)
    with False show ?thesis by simp
  qed
  have 3: "state (?h a) = ''ACT''"
    if "a \<in> insert animal D" "b \<in> insert animal D" "a \<noteq> b" "state (?h a) = state (?h b)" for a b
  proof (cases "a = animal")
    case True
    with that have "b \<in> D" "state (h b) = st" by auto
    with free show ?thesis by blast
  next
    case False
    note a = this
    show ?thesis
    proof (cases "b = animal")
      case True
      with a that have "a \<in> D" "state (h a) = st" by auto
      with free show ?thesis by blast
    next
      case False
      with a that have "a \<in> D" "b \<in> D" "state (h a) = state (h b)" by simp_all
      with inv that(3) have "state (h a) = ''ACT''"
        unfolding table_inv_def by blast
      with a show ?thesis by simp
    qed
  qed
  show ?thesis
    unfolding table_inv_def using 1 2 3 by blast
qed

lemma table_inv_one:
  assumes inv: "table_inv D h occ"
    and ks: "set state_order \<subseteq> keys g"
    and one: "relocate_one g animals h occ animal = Inr (h', occ')"
  shows "table_inv (insert animal D) h' occ'"
proof (cases "first_safe g h animals occ animal state_order")
  case None
  with one ks have "h' = h(animal := (h animal)\<lparr>state := ''ACT''\<rparr>)" "occ' = occ"
    by (simp_all add: relocate_one_first_safe)
  with table_inv_unplaced [OF inv] show ?thesis by simp
next
  case (Some st)
  with one ks have "h' = h(animal := (h animal)\<lparr>state := st\<rparr>)"
    "occ' = occ(st \<mapsto> name (h animal))"
    by (simp_all add: relocate_one_first_safe)
  moreover from first_safe_Some [OF Some] have "st \<in> set state_order" "occ st = None"
    by simp_all
  ultimately show ?thesis
    using table_inv_placed [OF inv] by simp
qed

lemma table_inv_loop:
  "table_inv D h occ \<Longrightarrow> set state_order \<subseteq> keys g \<Longrightarrow>
   relocate_loop g animals h occ rest = Inr (h', occ') \<Longrightarrow> table_inv (D \<union> set rest) h' occ'"
proof (induction rest arbitrary: D h occ)
  case Nil
  then show ?case by simp
next
  case (Cons animal rest)
  from Cons.prems(3) obtain h1 occ1 where
    one: "relocate_one g animals h occ animal = Inr (h1, occ1)" and
    loop: "relocate_loop g animals h1 occ1 rest = Inr (h', occ')"
    by (auto split: sum.splits)
  have "table_inv (insert animal D \<union> set rest) h' occ'"
    using Cons.IH [OF table_inv_one [OF Cons.prems(1,2) one] Cons.prems(2) loop] .
  then show ?case by simp
qed

subsection \<open>The whole run on the fixed graph\<close>

lemma example_summary:
  "summary ADJACENT_STATES example_store [0, 1, 2] =
     Inr [(''A'', ''NSW''), (''B'', ''TAS''), (''C'', ''QLD'')]"
  by code_simp

lemma summary_run:
  "relocate_animals g h animals = Inr (h', occ) \<Longrightarrow>
   summary g h animals = Inr (map (\<lambda>a. (name (h' a), get_state (h' a))) animals)"
  by (simp add: summary_def)

lemma relocate_animals_inv:
  "relocate_animals ADJACENT_STATES h animals = Inr (h', occ) \<Longrightarrow> table_inv (set animals) h' occ"
  using table_inv_loop [OF table_inv_empty, of ADJACENT_STATES animals h animals h' occ]
  by (simp add: relocate_animals_def state_order_keys)

lemma relocate_animals_total:
  "\<exists>h' occ. relocate_animals ADJACENT_STATES h animals = Inr (h', occ)"
  unfolding relocate_animals_def
  by (rule relocate_loop_total) (simp add: state_order_keys)

subsection \<open>Valid states, final states and occupancy\<close>

text \<open>
  C10: for every animal and every string \<open>s\<close>, \<open>set_state(s)\<close> sets the state to \<open>s\<close>
  exactly when \<open>s\<close> is one of the seven keys of \<open>ADJACENT_STATES\<close> or \<open>'ACT'\<close>; for any
  other string the animal is left as it was. The function has no error result.
\<close>

theorem set_state_valid_or_ignored:
  "set_state ADJACENT_STATES a s =
     (if s \<in> {''NSW'', ''QLD'', ''VIC'', ''TAS'', ''SA'', ''NT'', ''WA'', ''ACT''}
      then a\<lparr>state := s\<rparr> else a)"
  by (simp add: set_state_def keys_ADJACENT_STATES)

theorem set_state_valid_or_ignored_witness:
  "get_state (set_state ADJACENT_STATES (init ''A'' ''bush'' ''B'') ''TAS'') = ''TAS'' \<and>
   set_state ADJACENT_STATES (init ''A'' ''bush'' ''B'') ''Tasmania'' = init ''A'' ''bush'' ''B''"
  using set_state_valid_or_ignored [of "init ''A'' ''bush'' ''B''" "''TAS''"]
    set_state_valid_or_ignored [of "init ''A'' ''bush'' ''B''" "''Tasmania''"]
  by (simp add: get_state_def)

text \<open>
  C7: on every store and every list of animals the run returns, and afterwards the state
  of every animal of the list is \<open>'ACT'\<close> or a key of \<open>ADJACENT_STATES\<close>, whatever its
  state was before.
\<close>

theorem final_state_default_or_real:
  "\<exists>h' occ. relocate_animals ADJACENT_STATES h animals = Inr (h', occ) \<and>
     (\<forall>a\<in>set animals. get_state (h' a) = ''ACT'' \<or> get_state (h' a) \<in> keys ADJACENT_STATES)"
proof -
  from relocate_animals_total obtain h' occ where
    run: "relocate_animals ADJACENT_STATES h animals = Inr (h', occ)" by blast
  have "get_state (h' a) = ''ACT'' \<or> get_state (h' a) \<in> keys ADJACENT_STATES"
    if "a \<in> set animals" for a
  proof -
    from relocate_animals_inv [OF run] that
    have "state (h' a) = ''ACT'' \<or> occ (state (h' a)) = Some (name (h' a))"
      and "\<forall>st n. occ st = Some n \<longrightarrow> st \<in> set state_order"
      by (simp_all add: table_inv_def)
    then show ?thesis
      unfolding get_state_def state_order_keys by blast
  qed
  with run show ?thesis by blast
qed

theorem final_state_default_or_real_witness:
  "\<exists>h' occ. relocate_animals ADJACENT_STATES example_store [0, 1, 2] = Inr (h', occ) \<and>
     (1::nat) \<in> set [0, 1, 2] \<and> get_state (h' 1) = ''TAS'' \<and>
     (get_state (h' 1) = ''ACT'' \<or> get_state (h' 1) \<in> keys ADJACENT_STATES)"
proof -
  from final_state_default_or_real [of example_store "[0, 1, 2]"] obtain h' occ where
    run: "relocate_animals ADJACENT_STATES example_store [0, 1, 2] = Inr (h', occ)" and
    fin: "\<forall>a\<in>set [0, 1, 2]. get_state (h' a) = ''ACT'' \<or> get_state (h' a) \<in> keys ADJACENT_STATES"
    by blast
  from summary_run [OF run] example_summary have "get_state (h' 1) = ''TAS''" by simp
  moreover from fin have "get_state (h' 1) = ''ACT'' \<or> get_state (h' 1) \<in> keys ADJACENT_STATES"
    by simp
  ultimately show ?thesis using run by simp
qed

text \<open>
  C1: on every store and every list of animals the run returns, and afterwards two
  distinct animals of the list never have the same state unless that state is \<open>'ACT'\<close>.
  The table \<open>occupied\<close> is a dictionary, so it holds at most one name for a state.
\<close>

theorem no_double_occupancy:
  "\<exists>h' occ. relocate_animals ADJACENT_STATES h animals = Inr (h', occ) \<and>
     (\<forall>a\<in>set animals. \<forall>b\<in>set animals.
        a \<noteq> b \<and> get_state (h' a) \<noteq> ''ACT'' \<longrightarrow> get_state (h' a) \<noteq> get_state (h' b))"
proof -
  from relocate_animals_total obtain h' occ where
    run: "relocate_animals ADJACENT_STATES h animals = Inr (h', occ)" by blast
  from relocate_animals_inv [OF run]
  have "\<forall>a\<in>set animals. \<forall>b\<in>set animals.
          a \<noteq> b \<and> state (h' a) = state (h' b) \<longrightarrow> state (h' a) = ''ACT''"
    by (simp add: table_inv_def)
  then have "\<forall>a\<in>set animals. \<forall>b\<in>set animals.
        a \<noteq> b \<and> get_state (h' a) \<noteq> ''ACT'' \<longrightarrow> get_state (h' a) \<noteq> get_state (h' b)"
    unfolding get_state_def by blast
  with run show ?thesis by blast
qed

theorem no_double_occupancy_witness:
  "\<exists>h' occ. relocate_animals ADJACENT_STATES example_store [0, 1, 2] = Inr (h', occ) \<and>
     (0::nat) \<in> set [0, 1, 2] \<and> (2::nat) \<in> set [0, 1, 2] \<and> (0::nat) \<noteq> 2 \<and>
     get_state (h' 0) = ''NSW'' \<and> get_state (h' 0) \<noteq> ''ACT'' \<and> get_state (h' 0) \<noteq> get_state (h' 2)"
proof -
  from no_double_occupancy [of example_store "[0, 1, 2]"] obtain h' occ where
    run: "relocate_animals ADJACENT_STATES example_store [0, 1, 2] = Inr (h', occ)" and
    nd: "\<forall>a\<in>set [0, 1, 2]. \<forall>b\<in>set [0, 1, 2].
        a \<noteq> b \<and> get_state (h' a) \<noteq> ''ACT'' \<longrightarrow> get_state (h' a) \<noteq> get_state (h' b)"
    by blast
  from summary_run [OF run] example_summary have 0: "get_state (h' 0) = ''NSW''" by simp
  with nd have "get_state (h' 0) \<noteq> get_state (h' 2)" by simp
  with 0 run show ?thesis by simp
qed

subsection \<open>The entries of the table\<close>

lemma table_owner_one:
  assumes own: "\<forall>st n. occ st = Some n \<longrightarrow> (\<exists>a\<in>D. name (h a) = n \<and> state (h a) = st)"
    and ks: "set state_order \<subseteq> keys g"
    and new: "animal \<notin> D"
    and one: "relocate_one g animals h occ animal = Inr (h', occ')"
  shows "\<forall>st n. occ' st = Some n \<longrightarrow> (\<exists>a\<in>insert animal D. name (h' a) = n \<and> state (h' a) = st)"
proof (intro allI impI)
  fix st n
  assume entry: "occ' st = Some n"
  have old: "\<exists>a\<in>insert animal D. name (h' a) = n \<and> state (h' a) = st" if "occ st = Some n"
  proof -
    from own that obtain a where a: "a \<in> D" "name (h a) = n" "state (h a) = st" by blast
    with new have "a \<noteq> animal" by blast
    with relocate_one_other [OF one] have "h' a = h a" by simp
    with a have "a \<in> insert animal D" "name (h' a) = n" "state (h' a) = st" by simp_all
    then show ?thesis by blast
  qed
  show "\<exists>a\<in>insert animal D. name (h' a) = n \<and> state (h' a) = st"
  proof (cases "first_safe g h animals occ animal state_order")
    case None
    with one ks have "occ' = occ" by (simp add: relocate_one_first_safe)
    with entry old show ?thesis by simp
  next
    case (Some c)
    with one ks have h': "h' = h(animal := (h animal)\<lparr>state := c\<rparr>)"
      and occ': "occ' = occ(c \<mapsto> name (h animal))"
      by (simp_all add: relocate_one_first_safe)
    show ?thesis
    proof (cases "st = c")
      case True
      with entry occ' have "n = name (h animal)" by simp
      with True h' show ?thesis by simp
    next
      case False
      with entry occ' have "occ st = Some n" by simp
      then show ?thesis by (rule old)
    qed
  qed
qed

lemma table_owner_loop:
  "\<forall>st n. occ st = Some n \<longrightarrow> (\<exists>a\<in>D. name (h a) = n \<and> state (h a) = st) \<Longrightarrow>
   set state_order \<subseteq> keys g \<Longrightarrow> distinct rest \<Longrightarrow> set rest \<inter> D = {} \<Longrightarrow>
   relocate_loop g animals h occ rest = Inr (h', occ') \<Longrightarrow>
   \<forall>st n. occ' st = Some n \<longrightarrow> (\<exists>a\<in>D \<union> set rest. name (h' a) = n \<and> state (h' a) = st)"
proof (induction rest arbitrary: D h occ)
  case Nil
  then show ?case by simp
next
  case (Cons animal rest)
  from Cons.prems(5) obtain h1 occ1 where
    one: "relocate_one g animals h occ animal = Inr (h1, occ1)" and
    loop: "relocate_loop g animals h1 occ1 rest = Inr (h', occ')"
    by (auto split: sum.splits)
  from Cons.prems(3,4) have new: "animal \<notin> D" and d: "distinct rest"
    and disj: "set rest \<inter> insert animal D = {}" by auto
  have "\<forall>st n. occ' st = Some n \<longrightarrow>
          (\<exists>a\<in>insert animal D \<union> set rest. name (h' a) = n \<and> state (h' a) = st)"
    using Cons.IH [OF table_owner_one [OF Cons.prems(1,2) new one] Cons.prems(2) d disj loop] .
  then show ?case by simp
qed

lemma set_state_candidate:
  "st \<in> set state_order \<Longrightarrow> get_state (set_state ADJACENT_STATES x st) = st"
  by (simp add: set_state_def state_order_keys get_state_def)

text \<open>
  C9: after the run, an animal that is not at \<open>'ACT'\<close> is recorded in the table under
  the very state \<open>get_state\<close> returns; when the list holds no object twice, every entry
  of the table is the name and the state of an animal of the list; and \<open>set_state\<close>
  rejects no state of the candidate order.
\<close>

theorem read_back_matches_table:
  "\<exists>h' occ. relocate_animals ADJACENT_STATES h animals = Inr (h', occ) \<and>
     (\<forall>a\<in>set animals. get_state (h' a) \<noteq> ''ACT'' \<longrightarrow> occ (get_state (h' a)) = Some (name (h' a))) \<and>
     (distinct animals \<longrightarrow>
        (\<forall>st n. occ st = Some n \<longrightarrow> (\<exists>a\<in>set animals. name (h' a) = n \<and> get_state (h' a) = st))) \<and>
     (\<forall>st\<in>set state_order. \<forall>x. get_state (set_state ADJACENT_STATES x st) = st)"
proof -
  from relocate_animals_total obtain h' occ where
    run: "relocate_animals ADJACENT_STATES h animals = Inr (h', occ)" by blast
  from relocate_animals_inv [OF run]
  have "\<forall>a\<in>set animals. state (h' a) = ''ACT'' \<or> occ (state (h' a)) = Some (name (h' a))"
    by (simp add: table_inv_def)
  then have A: "\<forall>a\<in>set animals. get_state (h' a) \<noteq> ''ACT'' \<longrightarrow>
      occ (get_state (h' a)) = Some (name (h' a))"
    unfolding get_state_def by blast
  have B: "\<forall>st n. occ st = Some n \<longrightarrow> (\<exists>a\<in>set animals. name (h' a) = n \<and> get_state (h' a) = st)"
    if "distinct animals"
    using table_owner_loop [of Map.empty "{}" h ADJACENT_STATES animals animals h' occ] that run
    by (simp add: relocate_animals_def state_order_keys get_state_def)
  from run A B set_state_candidate show ?thesis by blast
qed

theorem read_back_matches_table_witness:
  "\<exists>h' occ. relocate_animals ADJACENT_STATES example_store [0, 1, 2] = Inr (h', occ) \<and>
     (1::nat) \<in> set [0, 1, 2] \<and> get_state (h' 1) = ''TAS'' \<and> get_state (h' 1) \<noteq> ''ACT'' \<and>
     distinct [0::nat, 1, 2] \<and> occ ''TAS'' = Some ''B'' \<and>
     (\<exists>a\<in>set [0, 1, 2]. name (h' a) = ''B'' \<and> get_state (h' a) = ''TAS'') \<and>
     ''TAS'' \<in> set state_order \<and>
     get_state (set_state ADJACENT_STATES (example_store 1) ''TAS'') = ''TAS''"
proof -
  from read_back_matches_table [of example_store "[0, 1, 2]"] obtain h' occ where
    run: "relocate_animals ADJACENT_STATES example_store [0, 1, 2] = Inr (h', occ)" and
    A: "\<forall>a\<in>set [0, 1, 2]. get_state (h' a) \<noteq> ''ACT'' \<longrightarrow> occ (get_state (h' a)) = Some (name (h' a))" and
    B: "distinct [0::nat, 1, 2] \<longrightarrow>
        (\<forall>st n. occ st = Some n \<longrightarrow> (\<exists>a\<in>set [0, 1, 2]. name (h' a) = n \<and> get_state (h' a) = st))" and
    C: "\<forall>st\<in>set state_order. \<forall>x. get_state (set_state ADJACENT_STATES x st) = st"
    by blast
  from summary_run [OF run] example_summary
  have 1: "get_state (h' 1) = ''TAS''" "name (h' 1) = ''B''" by simp_all
  with A have t: "occ ''TAS'' = Some ''B''" by simp
  have d: "distinct [0::nat, 1, 2]" by simp
  with B t have e: "\<exists>a\<in>set [0, 1, 2]. name (h' a) = ''B'' \<and> get_state (h' a) = ''TAS''" by blast
  have s: "''TAS'' \<in> set state_order" by (simp add: state_order_def)
  with C have "get_state (set_state ADJACENT_STATES (example_store 1) ''TAS'') = ''TAS''" by blast
  with run 1 t d e s show ?thesis by simp
qed

subsection \<open>The order of the candidates\<close>






subsection \<open>A threat that has not been processed\<close>

lemma ACT_not_adjacent: "''ACT'' \<notin> set (adjacent_get ADJACENT_STATES st)"
  by (simp add: adjacent_get_def ADJACENT_STATES_def)

lemma is_safe_forward_pass:
  assumes "\<not> same_state_as_threat h animals animal st"
    and "\<not> next_to_threat g h animals animal st"
    and "st \<in> keys g"
  shows "is_safe g h animals occ animal st =
           Inr (\<not> threat_to_adjacent h animals occ animal (adjacent_get g st))"
proof -
  from adjacent_index_key [OF assms(3)] obtain adjs where a: "adjacent_index g st = Inr adjs"
    by blast
  with adjacent_index_get [OF a] assms(1,2) show ?thesis
    by (simp add: is_safe_def)
qed

text \<open>
  C4: the checks read the state the threat has when the candidate is tried. When the pass
  of an animal starts and the animal its threat resolves to has not been processed and
  entered the run at \<open>'ACT'\<close>, that animal is still at \<open>'ACT'\<close>, and for every candidate
  neither the same-state check nor the adjacency check fails: only the check against the
  animals in adjacent states decides.
\<close>

theorem unprocessed_threat_never_blocks:
  assumes "animals = pre @ animal # post"
    and "relocate_loop ADJACENT_STATES animals h Map.empty pre = Inr (h1, occ1)"
    and "find_animal h1 animals (threat (h1 animal)) = Some threat_animal"
    and "threat_animal \<notin> set pre"
    and "get_state (h threat_animal) = ''ACT''"
    and "st \<in> set state_order"
  shows "get_state (h1 threat_animal) = ''ACT'' \<and>
         \<not> same_state_as_threat h1 animals animal st \<and>
         \<not> next_to_threat ADJACENT_STATES h1 animals animal st \<and>
         is_safe ADJACENT_STATES h1 animals occ1 animal st =
           Inr (\<not> threat_to_adjacent h1 animals occ1 animal (adjacent_get ADJACENT_STATES st))"
proof -
  from relocate_loop_other [OF assms(2,4)] assms(5)
  have act: "get_state (h1 threat_animal) = ''ACT''" by simp
  from assms(6) ACT_not_candidate have "st \<noteq> ''ACT''" by auto
  with act assms(3) have same: "\<not> same_state_as_threat h1 animals animal st"
    by (simp add: same_state_as_threat_def)
  from act assms(3) ACT_not_adjacent [of st]
  have adj: "\<not> next_to_threat ADJACENT_STATES h1 animals animal st"
    by (simp add: next_to_threat_def)
  from assms(6) have "st \<in> keys ADJACENT_STATES" by (simp add: state_order_keys)
  from is_safe_forward_pass [OF same adj this] act same adj show ?thesis by simp
qed

theorem unprocessed_threat_never_blocks_witness:
  "[0, 1, 2] = [] @ (0::nat) # [1, 2] \<and>
   relocate_loop ADJACENT_STATES [0, 1, 2] example_store Map.empty [] = Inr (example_store, Map.empty) \<and>
   find_animal example_store [0, 1, 2] (threat (example_store 0)) = Some 1 \<and>
   (1::nat) \<notin> set [] \<and> get_state (example_store 1) = ''ACT'' \<and> ''NSW'' \<in> set state_order \<and>
   \<not> same_state_as_threat example_store [0, 1, 2] 0 ''NSW'' \<and>
   \<not> next_to_threat ADJACENT_STATES example_store [0, 1, 2] 0 ''NSW'' \<and>
   is_safe ADJACENT_STATES example_store [0, 1, 2] Map.empty 0 ''NSW'' = Inr True"
proof -
  have 1: "[0, 1, 2] = [] @ (0::nat) # [1, 2]" by simp
  have 2: "relocate_loop ADJACENT_STATES [0, 1, 2] example_store Map.empty [] =
             Inr (example_store, Map.empty)" by simp
  have 3: "find_animal example_store [0, 1, 2] (threat (example_store 0)) = Some 1"
    by (simp add: find_animal_def example_store_def init_def)
  have 4: "(1::nat) \<notin> set []" by simp
  have 5: "get_state (example_store 1) = ''ACT''"
    by (simp add: get_state_def example_store_def init_def)
  have 6: "''NSW'' \<in> set state_order" by (simp add: state_order_def)
  have 7: "\<not> threat_to_adjacent example_store [0, 1, 2] Map.empty 0 (adjacent_get ADJACENT_STATES ''NSW'')"
    by (simp add: adjacent_get_def ADJACENT_STATES_def)
  from unprocessed_threat_never_blocks [OF 1 2 3 4 5 6] 1 2 3 4 5 6 7 show ?thesis by simp
qed

subsection \<open>The check against the animals in adjacent states\<close>

lemma find_animal_in_list: "find_animal h animals n = Some a \<Longrightarrow> a \<in> set animals \<and> name (h a) = n"
  unfolding find_animal_def by (induction animals) (auto split: if_splits)

lemma find_animal_unique:
  "distinct (map (\<lambda>a. name (h a)) animals) \<Longrightarrow> v \<in> set animals \<Longrightarrow>
   find_animal h animals (name (h v)) = Some v"
  unfolding find_animal_def by (induction animals) auto

lemma threat_to_adjacent_iff:
  "threat_to_adjacent h animals occ animal adjs \<longleftrightarrow>
     (\<exists>adj_state\<in>set adjs. \<exists>n v. occ adj_state = Some n \<and> find_animal h animals n = Some v \<and>
         threat (h v) = name (h animal))"
  by (induction adjs) (auto split: option.splits)

lemma is_safe_forward_fail:
  "same_state_as_threat h animals animal st \<or> next_to_threat g h animals animal st \<Longrightarrow>
   is_safe g h animals occ animal st = Inr False"
  by (auto simp: is_safe_def)

lemma is_safe_reverse_fail:
  assumes "adjacent_index g st = Inr adjs"
    and "threat_to_adjacent h animals occ animal adjs"
  shows "is_safe g h animals occ animal st = Inr False"
  using assms by (simp add: is_safe_def)

lemma try_states_skip:
  "is_safe g h animals occ animal st = Inr False \<Longrightarrow>
   try_states g h animals occ animal (st # sts) = try_states g h animals occ animal sts"
  by simp

text \<open>
  C2: let the names of the list be unique. When the table records, for a state in the
  graph entry of the candidate, the name of an animal whose threat is the name of the
  animal being placed, the candidate is not safe and the inner loop goes on to the next
  candidate. When check (1) or check (2) fails the candidate is rejected whatever the
  table holds and whether or not the graph has an entry for it; otherwise the result is
  that of check (3) on the graph entry.
\<close>

theorem reverse_threat_blocks:
  "(distinct (map (\<lambda>a. name (h a)) animals) \<and> victim \<in> set animals \<and>
    adjacent_index g st = Inr adjs \<and> adj_state \<in> set adjs \<and>
    occ adj_state = Some (name (h victim)) \<and> threat (h victim) = name (h animal) \<longrightarrow>
      is_safe g h animals occ animal st = Inr False \<and>
      try_states g h animals occ animal (st # sts) = try_states g h animals occ animal sts) \<and>
   (same_state_as_threat h animals animal st \<or> next_to_threat g h animals animal st \<longrightarrow>
      is_safe g h animals occ animal st = Inr False) \<and>
   (\<not> same_state_as_threat h animals animal st \<and> \<not> next_to_threat g h animals animal st \<longrightarrow>
      is_safe g h animals occ animal st =
        (case adjacent_index g st of
           Inl e \<Rightarrow> Inl e
         | Inr adjs \<Rightarrow> Inr (\<not> threat_to_adjacent h animals occ animal adjs)))"
proof (intro conjI impI)
  assume a: "distinct (map (\<lambda>a. name (h a)) animals) \<and> victim \<in> set animals \<and>
    adjacent_index g st = Inr adjs \<and> adj_state \<in> set adjs \<and>
    occ adj_state = Some (name (h victim)) \<and> threat (h victim) = name (h animal)"
  then have "find_animal h animals (name (h victim)) = Some victim"
    by (simp add: find_animal_unique)
  with a have "threat_to_adjacent h animals occ animal adjs"
    unfolding threat_to_adjacent_iff by blast
  with a show unsafe: "is_safe g h animals occ animal st = Inr False"
    by (simp add: is_safe_reverse_fail)
  then show "try_states g h animals occ animal (st # sts) = try_states g h animals occ animal sts"
    by (rule try_states_skip)
next
  assume "same_state_as_threat h animals animal st \<or> next_to_threat g h animals animal st"
  then show "is_safe g h animals occ animal st = Inr False"
    by (rule is_safe_forward_fail)
next
  assume "\<not> same_state_as_threat h animals animal st \<and> \<not> next_to_threat g h animals animal st"
  then show "is_safe g h animals occ animal st =
        (case adjacent_index g st of
           Inl e \<Rightarrow> Inl e
         | Inr adjs \<Rightarrow> Inr (\<not> threat_to_adjacent h animals occ animal adjs))"
    by (simp add: is_safe_def)
qed

lemma example_names: "distinct (map (\<lambda>a. name (example_store a)) [0, 1, 2])"
  by (simp add: example_store_def init_def)

theorem reverse_threat_blocks_witness:
  "(distinct (map (\<lambda>a. name ((example_store(0 := (example_store 0)\<lparr>state := ''NSW''\<rparr>)) a)) [0, 1, 2]) \<and>
    (0::nat) \<in> set [0, 1, 2] \<and>
    adjacent_index ADJACENT_STATES ''QLD'' = Inr [''NT'', ''SA'', ''NSW''] \<and>
    ''NSW'' \<in> set [''NT'', ''SA'', ''NSW''] \<and>
    [''NSW'' \<mapsto> ''A''] ''NSW'' = Some (name ((example_store(0 := (example_store 0)\<lparr>state := ''NSW''\<rparr>)) 0)) \<and>
    threat ((example_store(0 := (example_store 0)\<lparr>state := ''NSW''\<rparr>)) 0) =
      name ((example_store(0 := (example_store 0)\<lparr>state := ''NSW''\<rparr>)) 1)) \<and>
   is_safe ADJACENT_STATES (example_store(0 := (example_store 0)\<lparr>state := ''NSW''\<rparr>)) [0, 1, 2]
     [''NSW'' \<mapsto> ''A''] 1 ''QLD'' = Inr False \<and>
   \<not> same_state_as_threat (example_store(0 := (example_store 0)\<lparr>state := ''NSW''\<rparr>)) [0, 1, 2] 1 ''QLD'' \<and>
   \<not> next_to_threat ADJACENT_STATES (example_store(0 := (example_store 0)\<lparr>state := ''NSW''\<rparr>)) [0, 1, 2] 1 ''QLD'' \<and>
   is_safe ADJACENT_STATES (example_store(0 := (example_store 0)\<lparr>state := ''NSW''\<rparr>)) [0, 1, 2]
     [''NSW'' \<mapsto> ''A''] 1 ''QLD'' =
     (case adjacent_index ADJACENT_STATES ''QLD'' of
        Inl e \<Rightarrow> Inl e
      | Inr adjs \<Rightarrow>
          Inr (\<not> threat_to_adjacent (example_store(0 := (example_store 0)\<lparr>state := ''NSW''\<rparr>))
                   [0, 1, 2] [''NSW'' \<mapsto> ''A''] 1 adjs)) \<and>
   same_state_as_threat (example_store(2 := (example_store 2)\<lparr>state := ''NSW''\<rparr>)) [2] 2 ''NSW'' \<and>
   is_safe ADJACENT_STATES_without_TAS (example_store(2 := (example_store 2)\<lparr>state := ''NSW''\<rparr>)) [2]
     Map.empty 2 ''NSW'' = Inr False"
proof -
  let ?h = "example_store(0 := (example_store 0)\<lparr>state := ''NSW''\<rparr>)"
  let ?s = "example_store(2 := (example_store 2)\<lparr>state := ''NSW''\<rparr>)"
  have 1: "distinct (map (\<lambda>a. name (?h a)) [0, 1, 2])"
    by (simp add: example_store_def init_def)
  have 2: "(0::nat) \<in> set [0, 1, 2]" by simp
  have 3: "adjacent_index ADJACENT_STATES ''QLD'' = Inr [''NT'', ''SA'', ''NSW'']"
    by (simp add: adjacent_index_def ADJACENT_STATES_def)
  have 4: "''NSW'' \<in> set [''NT'', ''SA'', ''NSW'']" by simp
  have 5: "[''NSW'' \<mapsto> ''A''] ''NSW'' = Some (name (?h 0))"
    by (simp add: example_store_def init_def)
  have 6: "threat (?h 0) = name (?h 1)"
    by (simp add: example_store_def init_def)
  have 7: "\<not> same_state_as_threat ?h [0, 1, 2] 1 ''QLD''"
    by (simp add: same_state_as_threat_def find_animal_def example_store_def init_def)
  have 8: "\<not> next_to_threat ADJACENT_STATES ?h [0, 1, 2] 1 ''QLD''"
    by (simp add: next_to_threat_def find_animal_def example_store_def init_def)
  have 9: "same_state_as_threat ?s [2] 2 ''NSW''"
    by (simp add: same_state_as_threat_def find_animal_def example_store_def init_def get_state_def)
  note first = reverse_threat_blocks
    [of ?h "[0, 1, 2]" 0 ADJACENT_STATES "''QLD''" "[''NT'', ''SA'', ''NSW'']" "''NSW''"
      "[''NSW'' \<mapsto> ''A'']" 1 "[]", THEN conjunct1]
  note second = reverse_threat_blocks
    [of ?s "[2]" 2 ADJACENT_STATES_without_TAS "''NSW''" "[]" "''NSW''" Map.empty 2 "[]",
      THEN conjunct2, THEN conjunct1]
  note third = reverse_threat_blocks
    [of ?h "[0, 1, 2]" 0 ADJACENT_STATES "''QLD''" "[''NT'', ''SA'', ''NSW'']" "''NSW''"
      "[''NSW'' \<mapsto> ''A'']" 1 "[]", THEN conjunct2, THEN conjunct2]
  from third 7 8
  have c: "is_safe ADJACENT_STATES ?h [0, 1, 2] [''NSW'' \<mapsto> ''A''] 1 ''QLD'' =
     (case adjacent_index ADJACENT_STATES ''QLD'' of
        Inl e \<Rightarrow> Inl e
      | Inr adjs \<Rightarrow> Inr (\<not> threat_to_adjacent ?h [0, 1, 2] [''NSW'' \<mapsto> ''A''] 1 adjs))"
    by blast
  from first 1 2 3 4 5 6
  have a: "is_safe ADJACENT_STATES ?h [0, 1, 2] [''NSW'' \<mapsto> ''A''] 1 ''QLD'' = Inr False"
    by blast
  from second 9 have b: "is_safe ADJACENT_STATES_without_TAS ?s [2] Map.empty 2 ''NSW'' = Inr False"
    by blast
  from 1 2 3 4 5 6 7 8 9 a b c show ?thesis by blast
qed


subsection \<open>A candidate without an entry in the graph\<close>









subsection \<open>When the state of an animal is reset\<close>

text \<open>
  C6, as the claim states it, fails: an animal that is its own threat and enters the run
  at NSW (as it is after an earlier run has placed it there) is rejected at NSW, QLD and
  VIC by checks (1) and (2), which read its state NSW, and ends at TAS; had its pass begun
  by \<open>set_state('ACT')\<close> it would end at NSW.
\<close>

theorem reset_first_counterexample:
  "get_state ((example_store(2 := (example_store 2)\<lparr>state := ''NSW''\<rparr>)) 2) = ''NSW'' \<and>
   summary ADJACENT_STATES (example_store(2 := (example_store 2)\<lparr>state := ''NSW''\<rparr>)) [2] =
     Inr [(''C'', ''TAS'')] \<and>
   summary ADJACENT_STATES
     ((example_store(2 := (example_store 2)\<lparr>state := ''NSW''\<rparr>))
        (2 := set_state ADJACENT_STATES
                ((example_store(2 := (example_store 2)\<lparr>state := ''NSW''\<rparr>)) 2) ''ACT'')) [2] =
     Inr [(''C'', ''NSW'')]"
proof (intro conjI)
  show "get_state ((example_store(2 := (example_store 2)\<lparr>state := ''NSW''\<rparr>)) 2) = ''NSW''"
    by (simp add: get_state_def)
  show "summary ADJACENT_STATES (example_store(2 := (example_store 2)\<lparr>state := ''NSW''\<rparr>)) [2] =
     Inr [(''C'', ''TAS'')]"
    by code_simp
  show "summary ADJACENT_STATES
     ((example_store(2 := (example_store 2)\<lparr>state := ''NSW''\<rparr>))
        (2 := set_state ADJACENT_STATES
                ((example_store(2 := (example_store 2)\<lparr>state := ''NSW''\<rparr>)) 2) ''ACT'')) [2] =
     Inr [(''C'', ''NSW'')]"
    by code_simp
qed

text \<open>
  C6, amended: the pass of an animal tries the candidates in the store as the animal
  entered it, without a reset; it always returns; afterwards the animal is at the
  candidate that was committed, or at \<open>'ACT'\<close> when none was, so a state it entered with
  is kept only if it is committed there. For an animal that enters at \<open>'ACT'\<close>, as
  \<open>__init__\<close> leaves it, a reset before the pass changes nothing.
\<close>

theorem pass_resets_only_on_failure:
  "(\<exists>h' occ'. relocate_one ADJACENT_STATES animals h occ animal = Inr (h', occ') \<and>
      (case first_safe ADJACENT_STATES h animals occ animal state_order of
         None \<Rightarrow> get_state (h' animal) = ''ACT'' \<and> occ' = occ
       | Some st \<Rightarrow> get_state (h' animal) = st \<and> occ' = occ(st \<mapsto> name (h animal)))) \<and>
   (get_state (h animal) = ''ACT'' \<longrightarrow>
      relocate_one ADJACENT_STATES animals
        (h(animal := set_state ADJACENT_STATES (h animal) ''ACT'')) occ animal =
      relocate_one ADJACENT_STATES animals h occ animal)"
proof (intro conjI impI)
  have ks: "set state_order \<subseteq> keys ADJACENT_STATES" by (simp add: state_order_keys)
  show "\<exists>h' occ'. relocate_one ADJACENT_STATES animals h occ animal = Inr (h', occ') \<and>
      (case first_safe ADJACENT_STATES h animals occ animal state_order of
         None \<Rightarrow> get_state (h' animal) = ''ACT'' \<and> occ' = occ
       | Some st \<Rightarrow> get_state (h' animal) = st \<and> occ' = occ(st \<mapsto> name (h animal)))"
    by (cases "first_safe ADJACENT_STATES h animals occ animal state_order")
      (simp_all add: relocate_one_first_safe [OF ks] get_state_def)
next
  assume "get_state (h animal) = ''ACT''"
  then have "h(animal := set_state ADJACENT_STATES (h animal) ''ACT'') = h"
    by (simp add: set_state_ACT get_state_def fun_upd_idem_iff)
  then show "relocate_one ADJACENT_STATES animals
        (h(animal := set_state ADJACENT_STATES (h animal) ''ACT'')) occ animal =
      relocate_one ADJACENT_STATES animals h occ animal"
    by simp
qed

lemma example_reentry:
  "first_safe ADJACENT_STATES (example_store(2 := (example_store 2)\<lparr>state := ''NSW''\<rparr>)) [2]
     Map.empty 2 state_order = Some ''TAS''"
  by code_simp

theorem pass_resets_only_on_failure_witness:
  "(\<exists>h' occ'.
      relocate_one ADJACENT_STATES [2] (example_store(2 := (example_store 2)\<lparr>state := ''NSW''\<rparr>))
        Map.empty 2 = Inr (h', occ') \<and>
      get_state (h' 2) = ''TAS'' \<and> occ' = [''TAS'' \<mapsto> ''C'']) \<and>
   get_state (example_store 2) = ''ACT'' \<and>
   relocate_one ADJACENT_STATES [2]
     (example_store(2 := set_state ADJACENT_STATES (example_store 2) ''ACT'')) Map.empty 2 =
   relocate_one ADJACENT_STATES [2] example_store Map.empty 2"
proof -
  let ?s = "example_store(2 := (example_store 2)\<lparr>state := ''NSW''\<rparr>)"
  note pass = pass_resets_only_on_failure [of "[2]" ?s Map.empty 2, THEN conjunct1]
  then obtain h' occ' where
    one: "relocate_one ADJACENT_STATES [2] ?s Map.empty 2 = Inr (h', occ')" and
    res: "case first_safe ADJACENT_STATES ?s [2] Map.empty 2 state_order of
            None \<Rightarrow> get_state (h' 2) = ''ACT'' \<and> occ' = Map.empty
          | Some st \<Rightarrow> get_state (h' 2) = st \<and> occ' = [st \<mapsto> name (?s 2)]"
    by blast
  have n: "name (?s 2) = ''C''" by (simp add: example_store_def init_def)
  from res example_reentry n have "get_state (h' 2) = ''TAS'' \<and> occ' = [''TAS'' \<mapsto> ''C'']"
    by simp
  with one have a: "\<exists>h' occ'. relocate_one ADJACENT_STATES [2] ?s Map.empty 2 = Inr (h', occ') \<and>
      get_state (h' 2) = ''TAS'' \<and> occ' = [''TAS'' \<mapsto> ''C'']" by blast
  have b: "get_state (example_store 2) = ''ACT''"
    by (simp add: get_state_def example_store_def init_def)
  note same = pass_resets_only_on_failure [of "[2]" example_store Map.empty 2, THEN conjunct2]
  from same b have "relocate_one ADJACENT_STATES [2]
     (example_store(2 := set_state ADJACENT_STATES (example_store 2) ''ACT'')) Map.empty 2 =
   relocate_one ADJACENT_STATES [2] example_store Map.empty 2" by blast
  with a b show ?thesis by blast
qed

subsection \<open>The run reads names, threats and states only\<close>

lemma find_animal_same:
  "same_input animals h1 h2 \<Longrightarrow> find_animal h1 animals n = find_animal h2 animals n"
  unfolding find_animal_def same_input_def by (rule find_cong) simp_all

lemma same_state_as_threat_same:
  assumes "same_input animals h1 h2" and "animal \<in> set animals"
  shows "same_state_as_threat h1 animals animal st = same_state_as_threat h2 animals animal st"
proof -
  from assms have t: "threat (h1 animal) = threat (h2 animal)" by (simp add: same_input_def)
  show ?thesis
  proof (cases "find_animal h2 animals (threat (h2 animal))")
    case None
    with t find_animal_same [OF assms(1)] show ?thesis
      by (simp add: same_state_as_threat_def)
  next
    case (Some threat_animal)
    with find_animal_in_list have "threat_animal \<in> set animals" by blast
    with assms(1) have "state (h1 threat_animal) = state (h2 threat_animal)"
      by (simp add: same_input_def)
    with Some t find_animal_same [OF assms(1)] show ?thesis
      by (simp add: same_state_as_threat_def get_state_def)
  qed
qed

lemma next_to_threat_same:
  assumes "same_input animals h1 h2" and "animal \<in> set animals"
  shows "next_to_threat g h1 animals animal st = next_to_threat g h2 animals animal st"
proof -
  from assms have t: "threat (h1 animal) = threat (h2 animal)" by (simp add: same_input_def)
  show ?thesis
  proof (cases "find_animal h2 animals (threat (h2 animal))")
    case None
    with t find_animal_same [OF assms(1)] show ?thesis
      by (simp add: next_to_threat_def)
  next
    case (Some threat_animal)
    with find_animal_in_list have "threat_animal \<in> set animals" by blast
    with assms(1) have "state (h1 threat_animal) = state (h2 threat_animal)"
      by (simp add: same_input_def)
    with Some t find_animal_same [OF assms(1)] show ?thesis
      by (simp add: next_to_threat_def get_state_def)
  qed
qed

lemma threat_to_adjacent_same:
  assumes "same_input animals h1 h2" and "animal \<in> set animals"
  shows "threat_to_adjacent h1 animals occ animal adjs = threat_to_adjacent h2 animals occ animal adjs"
proof -
  from assms have n: "name (h1 animal) = name (h2 animal)" by (simp add: same_input_def)
  have v: "threat (h1 v) = threat (h2 v)" if "find_animal h2 animals m = Some v" for m v
  proof -
    from find_animal_in_list [OF that] have "v \<in> set animals" by simp
    with assms(1) show ?thesis by (simp add: same_input_def)
  qed
  show ?thesis
    unfolding threat_to_adjacent_iff find_animal_same [OF assms(1)] n
    using v by metis
qed

lemma is_safe_same:
  assumes "same_input animals h1 h2" and "animal \<in> set animals"
  shows "is_safe g h1 animals occ animal st = is_safe g h2 animals occ animal st"
  unfolding is_safe_def
  by (simp add: same_state_as_threat_same [OF assms] next_to_threat_same [OF assms]
      threat_to_adjacent_same [OF assms] cong: sum.case_cong)

lemma same_input_set_state:
  assumes "same_input animals h1 h2" and "animal \<in> set animals"
  shows "same_input animals (h1(animal := set_state g (h1 animal) st))
           (h2(animal := set_state g (h2 animal) st))"
proof -
  from assms have "state (h1 animal) = state (h2 animal)" "name (h1 animal) = name (h2 animal)"
    "threat (h1 animal) = threat (h2 animal)"
    by (simp_all add: same_input_def)
  then have "state (set_state g (h1 animal) st) = state (set_state g (h2 animal) st)"
    "name (set_state g (h1 animal) st) = name (set_state g (h2 animal) st)"
    "threat (set_state g (h1 animal) st) = threat (set_state g (h2 animal) st)"
    by (simp_all add: set_state_def)
  with assms(1) show ?thesis
    by (simp add: same_input_def)
qed

lemma try_states_same:
  assumes "same_input animals h1 h2" and "animal \<in> set animals"
  shows "rel_sum (=) (\<lambda>(h1', occ1, placed1) (h2', occ2, placed2).
            same_input animals h1' h2' \<and> occ1 = occ2 \<and> placed1 = placed2)
          (try_states g h1 animals occ animal sts) (try_states g h2 animals occ animal sts)"
proof (induction sts)
  case Nil
  from assms(1) show ?case by simp
next
  case (Cons st sts)
  from assms have n: "name (h1 animal) = name (h2 animal)" by (simp add: same_input_def)
  show ?case
  proof (cases "occ st \<noteq> None")
    case True
    with Cons.IH show ?thesis by simp
  next
    case False
    note free = this
    show ?thesis
    proof (cases "is_safe g h2 animals occ animal st")
      case (Inl e)
      with free is_safe_same [OF assms, of g occ st] show ?thesis by simp
    next
      case (Inr safe)
      show ?thesis
      proof (cases safe)
        case True
        with Inr free is_safe_same [OF assms, of g occ st] n
          same_input_set_state [OF assms, of g st]
        show ?thesis by (simp add: Let_def)
      next
        case False
        with Inr free is_safe_same [OF assms, of g occ st] Cons.IH
        show ?thesis by simp
      qed
    qed
  qed
qed

lemma relocate_one_same:
  assumes "same_input animals h1 h2" and "animal \<in> set animals"
  shows "rel_sum (=) (\<lambda>(h1', occ1) (h2', occ2). same_input animals h1' h2' \<and> occ1 = occ2)
          (relocate_one g animals h1 occ animal) (relocate_one g animals h2 occ animal)"
proof (cases "try_states g h1 animals occ animal state_order")
  case (Inl e)
  with try_states_same [OF assms, of g occ state_order] show ?thesis
    by (cases "try_states g h2 animals occ animal state_order") (simp_all add: relocate_one_def)
next
  case (Inr r1)
  obtain h1' occ1 placed1 where r1: "r1 = (h1', occ1, placed1)" by (cases r1)
  from Inr r1 try_states_same [OF assms, of g occ state_order] obtain h2' where
    t2: "try_states g h2 animals occ animal state_order = Inr (h2', occ1, placed1)" and
    s: "same_input animals h1' h2'"
    by (cases "try_states g h2 animals occ animal state_order") auto
  from same_input_set_state [OF s assms(2), of g "''ACT''"] s Inr r1 t2 show ?thesis
    by (simp add: relocate_one_def)
qed

lemma relocate_loop_same:
  "same_input animals h1 h2 \<Longrightarrow> set rest \<subseteq> set animals \<Longrightarrow>
   rel_sum (=) (\<lambda>(h1', occ1) (h2', occ2). same_input animals h1' h2' \<and> occ1 = occ2)
     (relocate_loop g animals h1 occ rest) (relocate_loop g animals h2 occ rest)"
proof (induction rest arbitrary: h1 h2 occ)
  case Nil
  then show ?case by simp
next
  case (Cons animal rest)
  then have a: "animal \<in> set animals" and r: "set rest \<subseteq> set animals" by simp_all
  show ?case
  proof (cases "relocate_one g animals h1 occ animal")
    case (Inl e)
    with relocate_one_same [OF Cons.prems(1) a, of g occ] show ?thesis
      by (cases "relocate_one g animals h2 occ animal") simp_all
  next
    case (Inr r1)
    obtain h1' occ1 where r1: "r1 = (h1', occ1)" by (cases r1)
    from Inr r1 relocate_one_same [OF Cons.prems(1) a, of g occ] obtain h2' where
      o2: "relocate_one g animals h2 occ animal = Inr (h2', occ1)" and
      s: "same_input animals h1' h2'"
      by (cases "relocate_one g animals h2 occ animal") auto
    from Cons.IH [OF s r, of occ1] Inr r1 o2 show ?thesis by simp
  qed
qed

text \<open>
  C8: the model is a function, so two runs on the same store and list give the same
  result. Moreover the result depends on nothing but the names, threats and states of the
  animals of the list: on two stores that agree on these, both runs return, with the same
  table and the same final state for every animal of the list.
\<close>

theorem relocate_animals_deterministic:
  "same_input animals h1 h2 \<longrightarrow>
     (\<exists>h1' h2' occ.
        relocate_animals ADJACENT_STATES h1 animals = Inr (h1', occ) \<and>
        relocate_animals ADJACENT_STATES h2 animals = Inr (h2', occ) \<and>
        (\<forall>a\<in>set animals. get_state (h1' a) = get_state (h2' a)) \<and>
        summary ADJACENT_STATES h1 animals = summary ADJACENT_STATES h2 animals)"
proof
  assume s: "same_input animals h1 h2"
  from relocate_animals_total obtain h1' occ1 where
    r1: "relocate_animals ADJACENT_STATES h1 animals = Inr (h1', occ1)" by blast
  from relocate_animals_total obtain h2' occ2 where
    r2: "relocate_animals ADJACENT_STATES h2 animals = Inr (h2', occ2)" by blast
  from relocate_loop_same [OF s subset_refl, of ADJACENT_STATES Map.empty] r1 r2
  have s': "same_input animals h1' h2'" and occ: "occ1 = occ2"
    by (simp_all add: relocate_animals_def)
  from s' have st: "\<forall>a\<in>set animals. get_state (h1' a) = get_state (h2' a)"
    and nm: "\<forall>a\<in>set animals. name (h1' a) = name (h2' a)"
    by (simp_all add: same_input_def get_state_def)
  from st nm have "summary ADJACENT_STATES h1 animals = summary ADJACENT_STATES h2 animals"
    by (simp add: summary_run [OF r1] summary_run [OF r2])
  with r1 r2 occ st show "\<exists>h1' h2' occ.
        relocate_animals ADJACENT_STATES h1 animals = Inr (h1', occ) \<and>
        relocate_animals ADJACENT_STATES h2 animals = Inr (h2', occ) \<and>
        (\<forall>a\<in>set animals. get_state (h1' a) = get_state (h2' a)) \<and>
        summary ADJACENT_STATES h1 animals = summary ADJACENT_STATES h2 animals"
    by blast
qed

theorem relocate_animals_deterministic_witness:
  "same_input [0, 1, 2] example_store
     (example_store(0 := (example_store 0)\<lparr>habitat := ''desert''\<rparr>, 7 := init ''D'' ''dune'' ''A'')) \<and>
   (\<exists>h1' h2' occ.
      relocate_animals ADJACENT_STATES example_store [0, 1, 2] = Inr (h1', occ) \<and>
      relocate_animals ADJACENT_STATES
        (example_store(0 := (example_store 0)\<lparr>habitat := ''desert''\<rparr>, 7 := init ''D'' ''dune'' ''A''))
        [0, 1, 2] = Inr (h2', occ) \<and>
      (1::nat) \<in> set [0, 1, 2] \<and> get_state (h1' 1) = ''TAS'' \<and> get_state (h2' 1) = ''TAS'') \<and>
   summary ADJACENT_STATES
     (example_store(0 := (example_store 0)\<lparr>habitat := ''desert''\<rparr>, 7 := init ''D'' ''dune'' ''A''))
     [0, 1, 2] = Inr [(''A'', ''NSW''), (''B'', ''TAS''), (''C'', ''QLD'')]"
proof -
  let ?h2 = "example_store(0 := (example_store 0)\<lparr>habitat := ''desert''\<rparr>, 7 := init ''D'' ''dune'' ''A'')"
  have same: "same_input [0, 1, 2] example_store ?h2"
    by (simp add: same_input_def)
  from relocate_animals_deterministic [of "[0, 1, 2]" example_store ?h2] same
  obtain h1' h2' occ where
    r1: "relocate_animals ADJACENT_STATES example_store [0, 1, 2] = Inr (h1', occ)" and
    r2: "relocate_animals ADJACENT_STATES ?h2 [0, 1, 2] = Inr (h2', occ)" and
    st: "\<forall>a\<in>set [0, 1, 2]. get_state (h1' a) = get_state (h2' a)" and
    su: "summary ADJACENT_STATES example_store [0, 1, 2] = summary ADJACENT_STATES ?h2 [0, 1, 2]"
    by blast
  from summary_run [OF r1] example_summary have 1: "get_state (h1' 1) = ''TAS''" by simp
  with st have 2: "get_state (h2' 1) = ''TAS''" by simp
  from su example_summary
  have 3: "summary ADJACENT_STATES ?h2 [0, 1, 2] = Inr [(''A'', ''NSW''), (''B'', ''TAS''), (''C'', ''QLD'')]"
    by simp
  have 4: "(1::nat) \<in> set [0, 1, 2]" by simp
  from same r1 r2 1 2 3 4 show ?thesis by blast
qed

end
